theory Spec2Isabelle
  imports Main "HOL-Library.AList"
begin

section \<open>Python string and dictionary primitives\<close>

text \<open>
  Strings are character lists.  A Python \<^verbatim>\<open>dict\<close> is an association list with
  distinct keys in insertion order: \<^verbatim>\<open>d.items()\<close> walks the list, \<^verbatim>\<open>d.get(k)\<close> is
  \<^const>\<open>map_of\<close>, and \<^verbatim>\<open>d.update({k: v})\<close> is \<^const>\<open>AList.update\<close> (an existing key keeps
  its position, a new key goes to the end).
\<close>

type_synonym 'v pydict = "(string \<times> 'v) list"

text \<open>\<^verbatim>\<open>s.startswith(p)\<close>\<close>

fun py_startswith :: "string \<Rightarrow> string \<Rightarrow> bool" where
  "py_startswith s [] = True"
| "py_startswith [] (p # ps) = False"
| "py_startswith (c # cs) (p # ps) = (c = p \<and> py_startswith cs ps)"

text \<open>\<^verbatim>\<open>s.index(ch)\<close> for a one-character \<^verbatim>\<open>ch\<close>: the first position, or \<^verbatim>\<open>ValueError\<close>
  (here \<open>None\<close>).\<close>

fun py_index :: "string \<Rightarrow> char \<Rightarrow> nat option" where
  "py_index [] ch = None"
| "py_index (c # cs) ch = (if c = ch then Some 0 else map_option Suc (py_index cs ch))"

text \<open>\<^verbatim>\<open>s[a:b]\<close> for non-negative \<^verbatim>\<open>a\<close>, \<^verbatim>\<open>b\<close>; empty when \<^verbatim>\<open>b <= a\<close>.\<close>

definition py_slice :: "string \<Rightarrow> nat \<Rightarrow> nat \<Rightarrow> string" where
  "py_slice s a b = drop a (take b s)"

text \<open>\<^verbatim>\<open>sub in s\<close>: substring test (the empty string is in every string).\<close>

fun py_contains :: "string \<Rightarrow> string \<Rightarrow> bool" where
  "py_contains sub [] = (sub = [])"
| "py_contains sub (c # cs) = (py_startswith (c # cs) sub \<or> py_contains sub cs)"

text \<open>\<^verbatim>\<open>s.split(sep)\<close> for a non-empty separator: occurrences are found left to right
  and do not overlap.  \<open>acc\<close> is the segment read so far.\<close>

function split_from :: "string \<Rightarrow> string \<Rightarrow> string \<Rightarrow> string list" where
  "split_from sep acc [] = [acc]"
| "split_from sep acc (c # cs) =
     (if sep \<noteq> [] \<and> py_startswith (c # cs) sep
      then acc # split_from sep [] (drop (length sep) (c # cs))
      else split_from sep (acc @ [c]) cs)"
  by pat_completeness auto
termination
  by (relation "measure (\<lambda>(sep, acc, s). length s)") auto

text \<open>\<^verbatim>\<open>s.split(sep)\<close>; an empty separator raises \<^verbatim>\<open>ValueError\<close> (here \<open>None\<close>).\<close>

definition py_split :: "string \<Rightarrow> string \<Rightarrow> string list option" where
  "py_split s sep = (if sep = [] then None else Some (split_from sep [] s))"

text \<open>\<^verbatim>\<open>s.split(',')\<close>\<close>

definition split_comma :: "string \<Rightarrow> string list" where
  "split_comma s = split_from '','' [] s"

text \<open>\<^verbatim>\<open>s.replace(ch, '')\<close> for a one-character \<^verbatim>\<open>ch\<close>: every occurrence is removed.\<close>

definition py_remove :: "char \<Rightarrow> string \<Rightarrow> string" where
  "py_remove ch s = filter (\<lambda>c. c \<noteq> ch) s"

text \<open>\<^verbatim>\<open>str(n)\<close> for an integer, as \<^verbatim>\<open>'{}'.format(n)\<close> prints it.\<close>

fun str_nat :: "nat \<Rightarrow> string" where
  "str_nat n =
     (if n < 10 then [char_of (48 + n)]
      else str_nat (n div 10) @ [char_of (48 + n mod 10)])"

declare str_nat.simps [simp del]

definition py_str :: "int \<Rightarrow> string" where
  "py_str i = (if i < 0 then CHR ''-'' # str_nat (nat (- i)) else str_nat (nat i))"

text \<open>
  \<^verbatim>\<open>int(s)\<close> on a string (Python 3, ASCII text): surrounding white space (the space
  and the characters 9 to 13) is dropped, one sign is allowed, then decimal digits, where
  single underscores may stand between digits.  Anything else raises \<^verbatim>\<open>ValueError\<close>
  (here \<open>None\<close>).
\<close>

definition is_space :: "char \<Rightarrow> bool" where
  "is_space c =
     (let n = (of_char c :: nat) in n = 32 \<or> (9 \<le> n \<and> n \<le> 13))"

definition py_strip :: "string \<Rightarrow> string" where
  "py_strip s = rev (dropWhile is_space (rev (dropWhile is_space s)))"

definition digit_of :: "char \<Rightarrow> int option" where
  "digit_of c =
     (let n = (of_char c :: nat) in if 48 \<le> n \<and> n \<le> 57 then Some (int n - 48) else None)"

fun parse_digits :: "int \<Rightarrow> string \<Rightarrow> int option" where
  "parse_digits acc [] = Some acc"
| "parse_digits acc (c # cs) =
     (if c = CHR ''_''
      then (case cs of
              [] \<Rightarrow> None
            | d # ds \<Rightarrow> (case digit_of d of
                          None \<Rightarrow> None
                        | Some v \<Rightarrow> parse_digits (10 * acc + v) ds))
      else (case digit_of c of
              None \<Rightarrow> None
            | Some v \<Rightarrow> parse_digits (10 * acc + v) cs))"

definition parse_unsigned :: "string \<Rightarrow> int option" where
  "parse_unsigned s =
     (case s of
        [] \<Rightarrow> None
      | c # cs \<Rightarrow> (case digit_of c of None \<Rightarrow> None | Some v \<Rightarrow> parse_digits v cs))"

definition py_int :: "string \<Rightarrow> int option" where
  "py_int s =
     (case py_strip s of
        [] \<Rightarrow> None
      | c # cs \<Rightarrow>
          (if c = CHR ''-'' then map_option uminus (parse_unsigned cs)
           else if c = CHR ''+'' then parse_unsigned cs
           else parse_unsigned (c # cs)))"

section \<open>Errors, configuration and the external collaborators\<close>

text \<open>
  The exceptions \<^verbatim>\<open>querystring.py\<close> raises, with their message (and, for
  \<^verbatim>\<open>BadRequest\<close>, the \<^verbatim>\<open>parameter\<close> of its source).  \<open>TypeError\<close> and \<open>ValueError\<close>
  are the Python exceptions no handler of the module catches; \<open>SchemaNotFound\<close> is the
  failure of the schema registry.
\<close>

datatype error =
    BadRequest string string
  | InvalidFilters string
  | InvalidSort string
  | InvalidField string
  | InvalidInclude string
  | TypeError
  | ValueError
  | SchemaNotFound string

text \<open>
  \<^verbatim>\<open>current_app.config\<close>: each of the four keys the module reads is either unset
  (\<open>None\<close>) or set.
\<close>

record config =
  PAGE_SIZE :: "int option"
  ALLOW_DISABLE_PAGINATION :: "bool option"
  MAX_PAGE_SIZE :: "int option"
  MAX_INCLUDE_DEPTH :: "int option"

text \<open>
  Modelled from the spec: the schema descriptor of \<^verbatim>\<open>flask_combo_jsonapi.schema\<close>, which
  is not among the sources.  The spec gives it the capabilities declared field names,
  relationship field names, alias resolution to the storage name, and a type name; they
  are \<^verbatim>\<open>schema._declared_fields\<close>, \<^verbatim>\<open>get_relationships(schema)\<close>,
  \<^verbatim>\<open>get_model_field(schema, field)\<close> and \<^verbatim>\<open>schema.__name__\<close> in the source.
\<close>

record schema =
  schema_name :: string
  declared_fields :: "string list"
  get_relationships :: "string list"
  get_model_field :: "string \<Rightarrow> string"

text \<open>
  Modelled from the spec: the registry behind \<^verbatim>\<open>get_schema_from_type\<close>, a lookup from a
  type name to its schema that fails when there is no such type.
\<close>

type_synonym registry = "string \<Rightarrow> schema option"

text \<open>A sort directive: the dictionary \<^verbatim>\<open>{'field': ..., 'order': ...}\<close>.\<close>

record sort_directive =
  field :: string
  order :: string

text \<open>A value of a bracketed group: the raw string, or its comma-separated parts.\<close>

datatype qvalue = Scalar string | Multi "string list"

text \<open>
  What \<^verbatim>\<open>json.loads\<close> returns.  The parser itself is the external library
  \<^verbatim>\<open>simplejson\<close>; the accessors take it as a parameter \<open>loads\<close>, where \<open>None\<close> is its
  \<^verbatim>\<open>JSONDecodeError\<close> (a \<^verbatim>\<open>ValueError\<close>).
\<close>

datatype json =
    JNull
  | JBool bool
  | JInt int
  | JFloat string
  | JString string
  | JArray "json list"
  | JObject "(string \<times> json) list"

section \<open>QueryStringManager\<close>

definition MANAGED_KEYS :: "string list" where
  "MANAGED_KEYS = [''filter'', ''page'', ''fields'', ''sort'', ''include'', ''q'']"

subsection \<open>\<^verbatim>\<open>_get_key_values\<close>\<close>

text \<open>
  The sub-key of one raw key: \<^verbatim>\<open>key[key.index('[') + 1 : key.index(']')]\<close>.  Either
  \<^verbatim>\<open>index\<close> call raises \<^verbatim>\<open>ValueError\<close> when the bracket is missing (here \<open>None\<close>).
\<close>

definition item_key :: "string \<Rightarrow> string option" where
  "item_key key =
     (case py_index key CHR ''['' of
        None \<Rightarrow> None
      | Some i \<Rightarrow>
          (case py_index key CHR '']'' of
             None \<Rightarrow> None
           | Some key_end \<Rightarrow> Some (py_slice key (i + 1) key_end)))"

text \<open>The value kept for a raw value: split on commas when it holds one.\<close>

definition item_value :: "string \<Rightarrow> qvalue" where
  "item_value val = (if CHR '','' \<in> set val then Multi (split_comma val) else Scalar val)"

text \<open>
  The loop over \<^verbatim>\<open>self.qs.items()\<close>, with the dictionary \<^verbatim>\<open>results\<close> built so far.  The
  handler turns every exception of the body into
  \<^verbatim>\<open>BadRequest("Parse error", source={'parameter': key})\<close>.
\<close>

fun get_key_values_loop ::
  "string \<Rightarrow> string pydict \<Rightarrow> qvalue pydict \<Rightarrow> error + qvalue pydict" where
  "get_key_values_loop name [] results = Inr results"
| "get_key_values_loop name ((key, val) # rest) results =
     (if \<not> py_startswith key name then get_key_values_loop name rest results
      else
        (case item_key key of
           None \<Rightarrow> Inl (BadRequest ''Parse error'' key)
         | Some k \<Rightarrow>
             get_key_values_loop name rest (AList.update k (item_value val) results)))"

definition get_key_values :: "string \<Rightarrow> string pydict \<Rightarrow> error + qvalue pydict" where
  "get_key_values name qs = get_key_values_loop name qs []"

subsection \<open>\<^verbatim>\<open>querystring\<close>\<close>

text \<open>
  The dictionary comprehension over \<^verbatim>\<open>self.qs.items()\<close>.  An entry is kept when
  \<^verbatim>\<open>key.startswith(self.MANAGED_KEYS)\<close> holds; otherwise the second operand of
  \<^verbatim>\<open>or\<close> is evaluated: \<^verbatim>\<open>self._get_key_values('filter[')\<close> over the whole querystring,
  which may raise and is true when it is a non-empty dictionary.
\<close>

fun querystring_loop :: "string pydict \<Rightarrow> string pydict \<Rightarrow> error + string pydict" where
  "querystring_loop qs [] = Inr []"
| "querystring_loop qs ((key, val) # rest) =
     (case (if list_ex (py_startswith key) MANAGED_KEYS then Inr True
            else (case get_key_values ''filter['' qs of
                    Inl e \<Rightarrow> Inl e
                  | Inr g \<Rightarrow> Inr (g \<noteq> []))) of
        Inl e \<Rightarrow> Inl e
      | Inr keep \<Rightarrow>
          (case querystring_loop qs rest of
             Inl e \<Rightarrow> Inl e
           | Inr r \<Rightarrow> Inr (if keep then (key, val) # r else r)))"

definition querystring :: "string pydict \<Rightarrow> error + string pydict" where
  "querystring qs = querystring_loop qs qs"

subsection \<open>\<^verbatim>\<open>filters\<close>\<close>

text \<open>
  \<^verbatim>\<open>results.extend(x)\<close> on an empty \<^verbatim>\<open>results\<close>: a list gives its elements, a
  dictionary its keys, a string its characters; a number, a boolean and \<^verbatim>\<open>None\<close> are not
  iterable and raise \<^verbatim>\<open>TypeError\<close> (here \<open>None\<close>).
\<close>

definition extend_json :: "json \<Rightarrow> json list option" where
  "extend_json x =
     (case x of
        JArray xs \<Rightarrow> Some xs
      | JObject kvs \<Rightarrow> Some (map (\<lambda>kv. JString (fst kv)) kvs)
      | JString s \<Rightarrow> Some (map (\<lambda>c. JString [c]) s)
      | _ \<Rightarrow> None)"

definition json_of_qvalue :: "qvalue \<Rightarrow> json" where
  "json_of_qvalue v = (case v of Scalar s \<Rightarrow> JString s | Multi xs \<Rightarrow> JArray (map JString xs))"

definition simple_filters :: "qvalue pydict \<Rightarrow> json list" where
  "simple_filters dict =
     map (\<lambda>kv. JObject [(''name'', JString (fst kv)), (''op'', JString ''eq''),
                          (''val'', json_of_qvalue (snd kv))]) dict"

definition filters :: "(string \<Rightarrow> json option) \<Rightarrow> string pydict \<Rightarrow> error + json list" where
  "filters loads qs =
     (case (case map_of qs ''filter'' of
              None \<Rightarrow> Inr []
            | Some f \<Rightarrow>
                (case loads f of
                   None \<Rightarrow> Inl (InvalidFilters ''Parse error'')
                 | Some x \<Rightarrow>
                     (case extend_json x of
                        None \<Rightarrow> Inl (InvalidFilters ''Parse error'')
                      | Some xs \<Rightarrow> Inr xs))) of
        Inl e \<Rightarrow> Inl e
      | Inr results \<Rightarrow>
          (case get_key_values ''filter['' qs of
             Inl e \<Rightarrow> Inl e
           | Inr g \<Rightarrow> Inr (if g \<noteq> [] then results @ simple_filters g else results)))"

subsection \<open>\<^verbatim>\<open>pagination\<close>\<close>

text \<open>\<^verbatim>\<open>int(value)\<close> on a value of the bracketed group: a list raises \<^verbatim>\<open>TypeError\<close>, which
  the handler for \<^verbatim>\<open>ValueError\<close> does not catch.\<close>

definition int_of_qvalue :: "string \<Rightarrow> qvalue \<Rightarrow> error + int" where
  "int_of_qvalue key v =
     (case v of
        Multi xs \<Rightarrow> Inl TypeError
      | Scalar s \<Rightarrow>
          (case py_int s of
             None \<Rightarrow> Inl (BadRequest ''Parse error'' (''page['' @ key @ '']''))
           | Some n \<Rightarrow> Inr n))"

text \<open>The first loop of \<^verbatim>\<open>pagination\<close>: the key check, then the coercion, entry by entry.\<close>

fun pagination_loop :: "qvalue pydict \<Rightarrow> error + int pydict" where
  "pagination_loop [] = Inr []"
| "pagination_loop ((key, val) # rest) =
     (if key \<noteq> ''number'' \<and> key \<noteq> ''size''
      then Inl (BadRequest (key @ '' is not a valid parameter of pagination'') ''page'')
      else
        (case int_of_qvalue key val of
           Inl e \<Rightarrow> Inl e
         | Inr n \<Rightarrow>
             (case pagination_loop rest of
                Inl e \<Rightarrow> Inl e
              | Inr r \<Rightarrow> Inr ((key, n) # r))))"

text \<open>\<^verbatim>\<open>d.setdefault(k, v)\<close>\<close>

definition setdefault :: "'v pydict \<Rightarrow> string \<Rightarrow> 'v \<Rightarrow> 'v pydict" where
  "setdefault d k v = (if k \<in> fst ` set d then d else d @ [(k, v)])"

text \<open>\<^verbatim>\<open>current_app.config.get('PAGE_SIZE', 30)\<close>\<close>

definition page_size :: "config \<Rightarrow> int" where
  "page_size cfg = (case PAGE_SIZE cfg of None \<Rightarrow> 30 | Some n \<Rightarrow> n)"

text \<open>The two policy checks on the dictionary after \<^verbatim>\<open>setdefault\<close>.\<close>

definition pagination_policy :: "config \<Rightarrow> int pydict \<Rightarrow> error + int pydict" where
  "pagination_policy cfg result =
     (if ALLOW_DISABLE_PAGINATION cfg = Some False \<and> map_of result ''size'' = Some 0
      then Inl (BadRequest ''You are not allowed to disable pagination'' ''page[size]'')
      else
        (case (MAX_PAGE_SIZE cfg, map_of result ''size'') of
           (Some m, Some sz) \<Rightarrow>
             (if sz > m
              then Inl (BadRequest (''Maximum page size is '' @ py_str m) ''page[size]'')
              else Inr result)
         | _ \<Rightarrow> Inr result))"

definition pagination :: "config \<Rightarrow> string pydict \<Rightarrow> error + int pydict" where
  "pagination cfg qs =
     (case get_key_values ''page'' qs of
        Inl e \<Rightarrow> Inl e
      | Inr g \<Rightarrow>
          (case pagination_loop g of
             Inl e \<Rightarrow> Inl e
           | Inr result \<Rightarrow>
               pagination_policy cfg (setdefault result ''size'' (page_size cfg))))"

subsection \<open>\<^verbatim>\<open>fields\<close>\<close>

text \<open>The first loop of \<^verbatim>\<open>fields\<close>: a value that is not a list becomes a one-element list.\<close>

definition as_list :: "qvalue \<Rightarrow> string list" where
  "as_list v = (case v of Scalar s \<Rightarrow> [s] | Multi xs \<Rightarrow> xs)"

text \<open>The inner loop \<^verbatim>\<open>for obj in value\<close>: the first name that is not a declared field raises.\<close>

fun fields_check :: "schema \<Rightarrow> string list \<Rightarrow> error + unit" where
  "fields_check sch [] = Inr ()"
| "fields_check sch (obj # rest) =
     (if obj \<notin> set (declared_fields sch)
      then Inl (InvalidField (schema_name sch @ '' has no attribute '' @ obj))
      else fields_check sch rest)"

text \<open>The outer loop: the schema of each type is looked up before its names are checked.\<close>

fun fields_loop :: "registry \<Rightarrow> (string list) pydict \<Rightarrow> error + unit" where
  "fields_loop get_schema_from_type [] = Inr ()"
| "fields_loop get_schema_from_type ((key, val) # rest) =
     (case get_schema_from_type key of
        None \<Rightarrow> Inl (SchemaNotFound key)
      | Some sch \<Rightarrow>
          (case fields_check sch val of
             Inl e \<Rightarrow> Inl e
           | Inr u \<Rightarrow> fields_loop get_schema_from_type rest))"

definition fields :: "registry \<Rightarrow> string pydict \<Rightarrow> error + (string list) pydict" where
  "fields get_schema_from_type qs =
     (case get_key_values ''fields'' qs of
        Inl e \<Rightarrow> Inl e
      | Inr g \<Rightarrow>
          (let result = map (\<lambda>kv. (fst kv, as_list (snd kv))) g
           in case fields_loop get_schema_from_type result of
                Inl e \<Rightarrow> Inl e
              | Inr u \<Rightarrow> Inr result))"

subsection \<open>\<^verbatim>\<open>sorting\<close>\<close>

text \<open>
  The body of the loop for one \<^verbatim>\<open>sort_field\<close>.  \<open>SPLIT_REL\<close> is the constant of
  \<^verbatim>\<open>flask_combo_jsonapi.utils\<close>, which is not among the sources: it is a parameter.
\<close>

definition sort_one :: "string \<Rightarrow> schema \<Rightarrow> string \<Rightarrow> error + sort_directive" where
  "sort_one SPLIT_REL sch sort_field =
     (let fld = py_remove CHR ''-'' sort_field;
          ord = (if py_startswith sort_field ''-'' then ''desc'' else ''asc'')
      in if py_contains SPLIT_REL fld then Inr \<lparr>field = fld, order = ord\<rparr>
         else if fld \<notin> set (declared_fields sch)
         then Inl (InvalidSort (schema_name sch @ '' has no attribute '' @ fld))
         else if fld \<in> set (get_relationships sch)
         then Inl (InvalidSort (''You can't sort on '' @ fld
                                 @ '' because it is a relationship field''))
         else Inr \<lparr>field = get_model_field sch fld, order = ord\<rparr>)"

fun sorting_loop :: "string \<Rightarrow> schema \<Rightarrow> string list \<Rightarrow> error + sort_directive list" where
  "sorting_loop SPLIT_REL sch [] = Inr []"
| "sorting_loop SPLIT_REL sch (sort_field # rest) =
     (case sort_one SPLIT_REL sch sort_field of
        Inl e \<Rightarrow> Inl e
      | Inr d \<Rightarrow>
          (case sorting_loop SPLIT_REL sch rest of
             Inl e \<Rightarrow> Inl e
           | Inr ds \<Rightarrow> Inr (d # ds)))"

text \<open>\<^verbatim>\<open>if self.qs.get('sort')\<close>: an absent and an empty value both give the empty list.\<close>

definition sorting :: "string \<Rightarrow> schema \<Rightarrow> string pydict \<Rightarrow> error + sort_directive list" where
  "sorting SPLIT_REL sch qs =
     (case map_of qs ''sort'' of
        None \<Rightarrow> Inr []
      | Some s \<Rightarrow>
          (if s = [] then Inr [] else sorting_loop SPLIT_REL sch (split_comma s)))"

subsection \<open>\<^verbatim>\<open>include\<close>\<close>

text \<open>
  The loop \<^verbatim>\<open>for include_path in include_param\<close>.  \<^verbatim>\<open>include_param\<close> is the raw string,
  so each \<^verbatim>\<open>include_path\<close> is one of its characters, as a one-character string.
\<close>

fun include_loop :: "string \<Rightarrow> int \<Rightarrow> string \<Rightarrow> error + unit" where
  "include_loop SPLIT_REL max_depth [] = Inr ()"
| "include_loop SPLIT_REL max_depth (c # cs) =
     (case py_split [c] SPLIT_REL of
        None \<Rightarrow> Inl ValueError
      | Some segments \<Rightarrow>
          (if int (length segments) > max_depth
           then Inl (InvalidInclude (''You can't use include through more than ''
                                     @ py_str max_depth @ '' relationships''))
           else include_loop SPLIT_REL max_depth cs))"

text \<open>
  \<^verbatim>\<open>self.qs.get('include', [])\<close>: the default \<^verbatim>\<open>[]\<close> and the empty string behave alike
  below (nothing to iterate, and false), so both are the empty string here.
\<close>

definition include_accessor :: "string \<Rightarrow> config \<Rightarrow> string pydict \<Rightarrow> error + string list" where
  "include_accessor SPLIT_REL cfg qs =
     (let include_param = (case map_of qs ''include'' of None \<Rightarrow> [] | Some s \<Rightarrow> s)
      in case (case MAX_INCLUDE_DEPTH cfg of
                 None \<Rightarrow> Inr ()
               | Some max_depth \<Rightarrow> include_loop SPLIT_REL max_depth include_param) of
           Inl e \<Rightarrow> Inl e
         | Inr u \<Rightarrow> Inr (if include_param = [] then [] else split_comma include_param))"

section \<open>Properties of the accessors\<close>

subsection \<open>The bracketed group\<close>

text \<open>
  Facts about \<^verbatim>\<open>str.index\<close> and the sub-key: the sub-key never holds a closing bracket,
  and the key \<open>page[sub]\<close> has the sub-key \<open>sub\<close>.
\<close>

lemma py_index_append_notin:
  "ch \<notin> set xs \<Longrightarrow> py_index (xs @ ch # ys) ch = Some (length xs)"
  by (induction xs) auto

lemma py_index_take:
  "py_index s ch = Some j \<Longrightarrow> ch \<notin> set (take j s)"
  by (induction s arbitrary: j) (auto split: if_splits)

lemma item_key_no_bracket:
  assumes "item_key key = Some sub"
  shows "CHR '']'' \<notin> set sub"
proof -
  from assms obtain i j where j: "py_index key CHR '']'' = Some j"
    and sub: "sub = py_slice key (i + 1) j"
    by (auto simp: item_key_def split: option.splits)
  have "set sub \<subseteq> set (take j key)"
    unfolding sub py_slice_def by (rule set_drop_subset)
  with py_index_take [OF j] show ?thesis by blast
qed

lemma item_key_page:
  assumes "CHR '']'' \<notin> set sub"
  shows "item_key (''page['' @ sub @ '']'') = Some sub"
proof -
  have open_at: "py_index (''page['' @ sub @ '']'') CHR ''['' = Some 4"
    by simp
  have "CHR '']'' \<notin> set (''page['' @ sub)"
    using assms by simp
  from py_index_append_notin [OF this, of "[]"]
  have close_at: "py_index (''page['' @ sub @ '']'') CHR '']'' = Some (5 + length sub)"
    by simp
  have "item_key (''page['' @ sub @ '']'')
        = Some (py_slice (''page['' @ sub @ '']'') (4 + 1) (5 + length sub))"
    by (simp only: item_key_def open_at close_at option.case)
  also have "py_slice (''page['' @ sub @ '']'') (4 + 1) (5 + length sub) = sub"
    by (simp add: py_slice_def eval_nat_numeral)
  finally show ?thesis .
qed

text \<open>
  Facts about the loop: keys already in \<^verbatim>\<open>results\<close> stay, every raw key that starts with
  the prefix puts its sub-key in, the value of a sub-key is the value of the raw entries that
  carry it, a matching key without brackets fails, and the loop sees a key only through its
  prefix test and its sub-key.
\<close>

lemma get_key_values_loop_keys_kept:
  "get_key_values_loop name qs acc = Inr g \<Longrightarrow> fst ` set acc \<subseteq> fst ` set g"
proof (induction qs arbitrary: acc)
  case Nil
  then show ?case by simp
next
  case (Cons kv qs)
  obtain k v where kv: "kv = (k, v)" by (cases kv)
  show ?case
  proof (cases "py_startswith k name")
    case False
    with Cons kv show ?thesis by simp
  next
    case True
    with Cons.prems kv obtain sub where sub: "item_key k = Some sub"
      and run: "get_key_values_loop name qs (AList.update sub (item_value v) acc) = Inr g"
      by (auto split: option.splits)
    from Cons.IH [OF run] show ?thesis by (auto simp: dom_update)
  qed
qed

lemma get_key_values_loop_has_key:
  "get_key_values_loop name qs acc = Inr g \<Longrightarrow> (key, v) \<in> set qs \<Longrightarrow>
   py_startswith key name \<Longrightarrow> \<exists>sub. item_key key = Some sub \<and> sub \<in> fst ` set g"
proof (induction qs arbitrary: acc)
  case Nil
  then show ?case by simp
next
  case (Cons kv qs)
  obtain k w where kv: "kv = (k, w)" by (cases kv)
  show ?case
  proof (cases "py_startswith k name")
    case False
    with Cons kv show ?thesis by auto
  next
    case True
    with Cons.prems(1) kv obtain sub where sub: "item_key k = Some sub"
      and run: "get_key_values_loop name qs (AList.update sub (item_value w) acc) = Inr g"
      by (auto split: option.splits)
    show ?thesis
    proof (cases "(key, v) = (k, w)")
      case True
      have "sub \<in> fst ` set (AList.update sub (item_value w) acc)"
        by (simp add: dom_update)
      with get_key_values_loop_keys_kept [OF run] True sub show ?thesis by auto
    next
      case False
      with Cons.prems(2) kv have "(key, v) \<in> set qs" by auto
      from Cons.IH [OF run this Cons.prems(3)] show ?thesis .
    qed
  qed
qed

lemma get_key_values_loop_value:
  "get_key_values_loop name qs acc = Inr g \<Longrightarrow>
   \<forall>kv\<in>set qs. py_startswith (fst kv) name \<and> item_key (fst kv) = Some sub
                 \<longrightarrow> item_value (snd kv) = x \<Longrightarrow>
   map_of acc sub = Some x
     \<or> (\<exists>kv\<in>set qs. py_startswith (fst kv) name \<and> item_key (fst kv) = Some sub) \<Longrightarrow>
   map_of g sub = Some x"
proof (induction qs arbitrary: acc)
  case Nil
  then show ?case by simp
next
  case (Cons kv qs)
  obtain k w where kv: "kv = (k, w)" by (cases kv)
  show ?case
  proof (cases "py_startswith k name")
    case False
    with Cons.prems kv have "get_key_values_loop name qs acc = Inr g"
      and "\<forall>kv\<in>set qs. py_startswith (fst kv) name \<and> item_key (fst kv) = Some sub
                 \<longrightarrow> item_value (snd kv) = x"
      and "map_of acc sub = Some x
           \<or> (\<exists>kv\<in>set qs. py_startswith (fst kv) name \<and> item_key (fst kv) = Some sub)"
      by auto
    then show ?thesis by (rule Cons.IH)
  next
    case True
    with Cons.prems(1) kv obtain s where s: "item_key k = Some s"
      and run: "get_key_values_loop name qs (AList.update s (item_value w) acc) = Inr g"
      by (auto split: option.splits)
    have rest: "\<forall>kv\<in>set qs. py_startswith (fst kv) name \<and> item_key (fst kv) = Some sub
                 \<longrightarrow> item_value (snd kv) = x"
      using Cons.prems(2) by simp
    have "map_of (AList.update s (item_value w) acc) sub = Some x
          \<or> (\<exists>kv\<in>set qs. py_startswith (fst kv) name \<and> item_key (fst kv) = Some sub)"
    proof (cases "s = sub")
      case True
      with Cons.prems(2) kv \<open>py_startswith k name\<close> s have "item_value w = x" by simp
      with True show ?thesis by (simp add: update_conv')
    next
      case False
      with Cons.prems(3) kv s show ?thesis by (auto simp: update_conv')
    qed
    with run rest show ?thesis by (rule Cons.IH)
  qed
qed

lemma get_key_values_loop_missing_bracket:
  "(key, v) \<in> set qs \<Longrightarrow> py_startswith key name \<Longrightarrow> item_key key = None \<Longrightarrow>
   \<exists>k. get_key_values_loop name qs acc = Inl (BadRequest ''Parse error'' k)"
proof (induction qs arbitrary: acc)
  case Nil
  then show ?case by simp
next
  case (Cons kv qs)
  obtain k w where kv: "kv = (k, w)" by (cases kv)
  show ?case
  proof (cases "(key, v) = (k, w)")
    case True
    with Cons.prems kv show ?thesis by simp
  next
    case False
    with Cons.prems(1) kv have "(key, v) \<in> set qs" by auto
    from Cons.IH [OF this Cons.prems(2,3)] show ?thesis
      using kv by (simp split: option.splits)
  qed
qed

lemma get_key_values_loop_rename:
  assumes "\<And>k. py_startswith (c k) name = py_startswith k name"
      and "\<And>k. py_startswith k name \<Longrightarrow> item_key (c k) = item_key k"
      and "\<And>k. py_startswith k name \<Longrightarrow> item_key k = None \<Longrightarrow> c k = k"
  shows "get_key_values_loop name (map (\<lambda>kv. (c (fst kv), snd kv)) qs) acc
         = get_key_values_loop name qs acc"
proof (induction qs arbitrary: acc)
  case Nil
  then show ?case by simp
next
  case (Cons kv qs)
  obtain k w where kv: "kv = (k, w)" by (cases kv)
  show ?case
    using Cons.IH assms kv by (cases "item_key k") simp_all
qed

lemma get_key_values_loop_skip:
  "\<forall>kv\<in>set qs. \<not> py_startswith (fst kv) name \<Longrightarrow> get_key_values_loop name qs acc = Inr acc"
  by (induction qs) auto

lemma get_key_values_loop_nonempty:
  "get_key_values_loop name qs acc = Inr g \<Longrightarrow>
   acc \<noteq> [] \<or> (\<exists>kv\<in>set qs. py_startswith (fst kv) name) \<Longrightarrow> g \<noteq> []"
proof (induction qs arbitrary: acc)
  case Nil
  then show ?case by simp
next
  case (Cons kv qs)
  obtain k w where kv: "kv = (k, w)" by (cases kv)
  show ?case
  proof (cases "py_startswith k name")
    case False
    with Cons kv show ?thesis by auto
  next
    case True
    with Cons.prems(1) kv obtain sub where
      run: "get_key_values_loop name qs (AList.update sub (item_value w) acc) = Inr g"
      by (auto split: option.splits)
    from Cons.IH [OF run] show ?thesis by simp
  qed
qed

text \<open>
  The key \<open>pagination[size]\<close> does not start with \<open>page\<close> (its fourth character is \<open>i\<close>), so
  it is not part of the \<open>page\<close> group, and the accessor answers with the default size.
\<close>

theorem pagination_key_not_matched:
  "get_key_values ''page'' [(''pagination[size]'', ''9'')] = Inr []
   \<and> pagination \<lparr>PAGE_SIZE = None, ALLOW_DISABLE_PAGINATION = None, MAX_PAGE_SIZE = None,
                  MAX_INCLUDE_DEPTH = None\<rparr>
       [(''pagination[size]'', ''9'')]
     = Inr [(''size'', 30)]"
  by code_simp

text \<open>
  Claim C10, amended.  Extraction matches raw keys by textual prefix: a raw key that starts
  with the prefix string, such as \<open>pages[number]\<close> for the prefix \<open>page\<close>, either has no
  brackets, and then extraction fails with \<open>BadRequest\<close>, or its sub-key is in the extracted
  group, with its value whenever every matching raw entry with this sub-key carries this
  value.  The pagination accessor reads such a key as the parameter \<open>page[sub]\<close>: renaming it
  to \<open>page[sub]\<close> does not change the result.  (A key such as \<open>pagination[size]\<close>, which does
  not start with \<open>page\<close>, is not extracted.)
\<close>

theorem bracketed_group_prefix_match:
  assumes "(key, v) \<in> set qs" and "py_startswith key name"
  shows
    "(item_key key = None \<longrightarrow>
        (\<exists>k. get_key_values name qs = Inl (BadRequest ''Parse error'' k)))
     \<and> (get_key_values name qs = Inr g \<longrightarrow>
        (\<exists>sub. item_key key = Some sub \<and> sub \<in> fst ` set g
           \<and> ((\<forall>kv\<in>set qs. py_startswith (fst kv) name \<and> item_key (fst kv) = Some sub
                              \<longrightarrow> snd kv = v)
                \<longrightarrow> map_of g sub = Some (item_value v))))
     \<and> (name = ''page'' \<and> item_key key = Some sub' \<longrightarrow>
        pagination cfg
          (map (\<lambda>kv. (if fst kv = key then ''page['' @ sub' @ '']'' else fst kv, snd kv)) qs)
        = pagination cfg qs)"
proof -
  have missing: "\<exists>k. get_key_values name qs = Inl (BadRequest ''Parse error'' k)"
    if "item_key key = None"
    unfolding get_key_values_def
    using assms that by (rule get_key_values_loop_missing_bracket)
  have extracted: "\<exists>sub. item_key key = Some sub \<and> sub \<in> fst ` set g
           \<and> ((\<forall>kv\<in>set qs. py_startswith (fst kv) name \<and> item_key (fst kv) = Some sub
                              \<longrightarrow> snd kv = v)
                \<longrightarrow> map_of g sub = Some (item_value v))"
    if run: "get_key_values name qs = Inr g"
  proof -
    from run have loop: "get_key_values_loop name qs [] = Inr g"
      by (simp add: get_key_values_def)
    from get_key_values_loop_has_key [OF loop assms]
    obtain sub where sub: "item_key key = Some sub" "sub \<in> fst ` set g"
      by blast
    have "map_of g sub = Some (item_value v)"
      if only: "\<forall>kv\<in>set qs. py_startswith (fst kv) name \<and> item_key (fst kv) = Some sub
                              \<longrightarrow> snd kv = v"
    proof (rule get_key_values_loop_value [OF loop])
      show "\<forall>kv\<in>set qs. py_startswith (fst kv) name \<and> item_key (fst kv) = Some sub
                 \<longrightarrow> item_value (snd kv) = item_value v"
        using only by auto
      show "map_of [] sub = Some (item_value v)
            \<or> (\<exists>kv\<in>set qs. py_startswith (fst kv) name \<and> item_key (fst kv) = Some sub)"
        using assms sub(1) by force
    qed
    with sub show ?thesis by blast
  qed
  have renamed: "pagination cfg
          (map (\<lambda>kv. (if fst kv = key then ''page['' @ sub' @ '']'' else fst kv, snd kv)) qs)
        = pagination cfg qs"
    if "name = ''page''" "item_key key = Some sub'"
  proof -
    let ?c = "\<lambda>k. if k = key then ''page['' @ sub' @ '']'' else k"
    have page: "py_startswith key ''page''"
      using assms(2) that(1) by simp
    have canon: "item_key (''page['' @ sub' @ '']'') = Some sub'"
      using item_key_no_bracket [OF that(2)] by (rule item_key_page)
    have "get_key_values_loop ''page'' (map (\<lambda>kv. (?c (fst kv), snd kv)) qs) []
          = get_key_values_loop ''page'' qs []"
    proof (rule get_key_values_loop_rename)
      show "py_startswith (?c k) ''page'' = py_startswith k ''page''" for k
        using page by simp
      show "item_key (?c k) = item_key k" if "py_startswith k ''page''" for k
        using canon \<open>item_key key = Some sub'\<close> by simp
      show "?c k = k" if "py_startswith k ''page''" "item_key k = None" for k
        using that(2) \<open>item_key key = Some sub'\<close> by auto
    qed
    then show ?thesis
      by (simp add: pagination_def get_key_values_def)
  qed
  show ?thesis using missing extracted renamed by blast
qed

theorem bracketed_group_prefix_match_witness:
  "get_key_values ''page'' [(''pages[number]'', ''5'')] = Inr [(''number'', Scalar ''5'')]
   \<and> map_of [(''number'', Scalar ''5'')] ''number'' = Some (item_value ''5'')
   \<and> pagination \<lparr>PAGE_SIZE = None, ALLOW_DISABLE_PAGINATION = None, MAX_PAGE_SIZE = None,
                  MAX_INCLUDE_DEPTH = None\<rparr>
       [(''page[number]'', ''5'')]
     = pagination \<lparr>PAGE_SIZE = None, ALLOW_DISABLE_PAGINATION = None, MAX_PAGE_SIZE = None,
                    MAX_INCLUDE_DEPTH = None\<rparr>
         [(''pages[number]'', ''5'')]
   \<and> pagination \<lparr>PAGE_SIZE = None, ALLOW_DISABLE_PAGINATION = None, MAX_PAGE_SIZE = None,
                  MAX_INCLUDE_DEPTH = None\<rparr>
       [(''pages[number]'', ''5'')]
     = Inr [(''number'', 5), (''size'', 30)]
   \<and> (\<exists>k. get_key_values ''page'' [(''pages'', ''5'')] = Inl (BadRequest ''Parse error'' k))"
proof -
  let ?cfg = "\<lparr>PAGE_SIZE = None, ALLOW_DISABLE_PAGINATION = None, MAX_PAGE_SIZE = None,
               MAX_INCLUDE_DEPTH = None\<rparr>"
  have g: "get_key_values ''page'' [(''pages[number]'', ''5'')] = Inr [(''number'', Scalar ''5'')]"
    by code_simp
  have k: "item_key ''pages[number]'' = Some ''number''"
    by code_simp
  have k': "item_key ''pages'' = None"
    by code_simp
  have r: "pagination ?cfg [(''pages[number]'', ''5'')] = Inr [(''number'', 5), (''size'', 30)]"
    by code_simp
  have a: "map_of [(''number'', Scalar ''5'')] ''number'' = Some (item_value ''5'')"
    using bracketed_group_prefix_match [where key = "''pages[number]''" and v = "''5''"
        and qs = "[(''pages[number]'', ''5'')]" and name = "''page''"
        and g = "[(''number'', Scalar ''5'')]"] g k
    by simp
  have b: "pagination ?cfg [(''page[number]'', ''5'')]
           = pagination ?cfg [(''pages[number]'', ''5'')]"
    using bracketed_group_prefix_match [where key = "''pages[number]''" and v = "''5''"
        and qs = "[(''pages[number]'', ''5'')]" and name = "''page''"
        and sub' = "''number''" and cfg = ?cfg] k
    by simp
  have c: "\<exists>k. get_key_values ''page'' [(''pages'', ''5'')] = Inl (BadRequest ''Parse error'' k)"
    using bracketed_group_prefix_match [where key = "''pages''" and v = "''5''"
        and qs = "[(''pages'', ''5'')]" and name = "''page''"] k'
    by simp
  show ?thesis using g a b c r by simp
qed

subsection \<open>The include depth check\<close>

text \<open>
  One character has at most two segments: two when it is the separator, one otherwise.  So
  the check never fails once the limit is 2 or more, whatever the paths are, and with the
  separator \<open>.\<close> the include \<open>author.comments\<close> is refused for the limit 1 only because the
  character \<open>.\<close> itself counts as two segments.
\<close>

lemma py_startswith_single:
  "sep \<noteq> [] \<Longrightarrow> py_startswith [c] sep = (sep = [c])"
  by (cases sep; cases "tl sep") auto

lemma split_single_char:
  "sep \<noteq> [] \<Longrightarrow> split_from sep [] [c] = (if sep = [c] then [[], []] else [[c]])"
  by (simp add: py_startswith_single)

lemma include_loop_accepts:
  assumes "SPLIT_REL \<noteq> []" and "2 \<le> max_depth"
  shows "include_loop SPLIT_REL max_depth s = Inr ()"
  using assms
  by (induction s) (simp_all add: py_split_def split_single_char del: split_from.simps)

lemma include_depth_check_vacuous:
  assumes "SPLIT_REL \<noteq> []" and "MAX_INCLUDE_DEPTH cfg = Some max_depth" and "2 \<le> max_depth"
      and "map_of qs ''include'' = Some s" and "s \<noteq> []"
  shows "include_accessor SPLIT_REL cfg qs = Inr (split_comma s)"
  using assms by (simp add: include_accessor_def include_loop_accepts)

lemma include_author_comments:
  "include_accessor ''.''
     \<lparr>PAGE_SIZE = None, ALLOW_DISABLE_PAGINATION = None, MAX_PAGE_SIZE = None,
        MAX_INCLUDE_DEPTH = Some 1\<rparr>
     [(''include'', ''author.comments'')]
   = Inl (InvalidInclude ''You can't use include through more than 1 relationships'')
   \<and> include_accessor ''.''
       \<lparr>PAGE_SIZE = None, ALLOW_DISABLE_PAGINATION = None, MAX_PAGE_SIZE = None,
          MAX_INCLUDE_DEPTH = Some 2\<rparr>
       [(''include'', ''author.comments'')]
     = Inr [''author.comments'']
   \<and> include_accessor ''.''
       \<lparr>PAGE_SIZE = None, ALLOW_DISABLE_PAGINATION = None, MAX_PAGE_SIZE = None,
          MAX_INCLUDE_DEPTH = None\<rparr>
       [(''include'', ''author.comments'')]
     = Inr [''author.comments'']"
  by code_simp

text \<open>
  Claim C1.  The depth check is meant to count the separator-delimited segments of each
  include path and to fail with \<open>InvalidInclude\<close> when a path has more segments than
  \<open>MAX_INCLUDE_DEPTH\<close>.  The loop of the source runs over the characters of the raw
  string, so a path is never longer than two segments for it: with the separator \<open>.\<close>
  and a limit of 2, the three-segment path \<open>a.b.c\<close> is accepted and returned.
\<close>

theorem include_depth_three_segments_accepted:
  "include_accessor ''.''
     \<lparr>PAGE_SIZE = None, ALLOW_DISABLE_PAGINATION = None, MAX_PAGE_SIZE = None,
        MAX_INCLUDE_DEPTH = Some 2\<rparr>
     [(''include'', ''a.b.c'')]
   = Inr [''a.b.c'']"
  by code_simp

subsection \<open>The managed querystring\<close>

text \<open>
  What the comprehension returns: the managed entries when no key starts with \<open>filter[\<close>,
  and the whole querystring when one does and the \<open>filter[\<close> group can be extracted.
\<close>

lemma querystring_loop_keep_some:
  "querystring_loop qs rest
   = (case get_key_values ''filter['' qs of
        Inl e \<Rightarrow> querystring_loop qs rest
      | Inr g \<Rightarrow>
          Inr (filter (\<lambda>kv. list_ex (py_startswith (fst kv)) MANAGED_KEYS \<or> g \<noteq> []) rest))"
proof (cases "get_key_values ''filter['' qs")
  case (Inl e)
  then show ?thesis by simp
next
  case (Inr g)
  have "querystring_loop qs rest
        = Inr (filter (\<lambda>kv. list_ex (py_startswith (fst kv)) MANAGED_KEYS \<or> g \<noteq> []) rest)"
  proof (induction rest)
    case Nil
    then show ?case by simp
  next
    case (Cons kv rest)
    obtain k w where kv: "kv = (k, w)" by (cases kv)
    show ?case using Cons.IH Inr kv by simp
  qed
  with Inr show ?thesis by simp
qed

lemma querystring_without_filter_group:
  assumes "\<forall>kv\<in>set qs. \<not> py_startswith (fst kv) ''filter[''"
  shows "querystring qs
         = Inr (filter (\<lambda>kv. list_ex (py_startswith (fst kv)) MANAGED_KEYS) qs)"
proof -
  have "get_key_values ''filter['' qs = Inr []"
    using assms by (simp add: get_key_values_def get_key_values_loop_skip)
  then show ?thesis
    using querystring_loop_keep_some [of qs qs] by (simp add: querystring_def)
qed

lemma querystring_with_filter_group:
  assumes "get_key_values ''filter['' qs = Inr g"
      and "\<exists>kv\<in>set qs. py_startswith (fst kv) ''filter[''"
  shows "querystring qs = Inr qs"
proof -
  have "g \<noteq> []"
    using assms get_key_values_loop_nonempty [of "''filter[''" qs "[]" g]
    by (simp add: get_key_values_def)
  then show ?thesis
    using querystring_loop_keep_some [of qs qs] assms(1) by (simp add: querystring_def)
qed

text \<open>
  Claim C2.  The managed querystring is meant to hold only the entries whose key starts
  with a managed name.  As soon as one key of the form \<open>filter[...]\<close> is present, the second
  operand of the source's \<open>or\<close> is true for every entry, and an unmanaged entry such as
  \<open>foo=bar\<close> is returned as well.
\<close>

theorem querystring_keeps_unmanaged_key:
  "querystring [(''filter[a]'', ''1''), (''foo'', ''bar'')]
   = Inr [(''filter[a]'', ''1''), (''foo'', ''bar'')]"
  by code_simp

subsection \<open>The JSON filter\<close>

text \<open>
  A \<open>filter\<close> value the parser refuses fails with \<open>InvalidFilters\<close>, and so does a JSON
  number, boolean or \<open>null\<close> (through \<open>TypeError\<close>).  A JSON object gives its keys and a JSON
  string its characters.
\<close>

lemma filters_invalid_json:
  assumes "map_of qs ''filter'' = Some f" and "loads f = None"
  shows "filters loads qs = Inl (InvalidFilters ''Parse error'')"
  using assms by (simp add: filters_def)

lemma filters_not_iterable:
  assumes "map_of qs ''filter'' = Some f" and "loads f = Some x"
      and "x = JNull \<or> (\<exists>b. x = JBool b) \<or> (\<exists>n. x = JInt n) \<or> (\<exists>t. x = JFloat t)"
  shows "filters loads qs = Inl (InvalidFilters ''Parse error'')"
  using assms by (auto simp: filters_def extend_json_def)

lemma filters_json_object:
  assumes "map_of qs ''filter'' = Some f" and "loads f = Some (JObject kvs)"
      and "\<forall>kv\<in>set qs. \<not> py_startswith (fst kv) ''filter[''"
  shows "filters loads qs = Inr (map (\<lambda>kv. JString (fst kv)) kvs)"
  using assms
  by (simp add: filters_def extend_json_def get_key_values_def get_key_values_loop_skip)

lemma filters_json_string:
  assumes "map_of qs ''filter'' = Some f" and "loads f = Some (JString t)"
      and "\<forall>kv\<in>set qs. \<not> py_startswith (fst kv) ''filter[''"
  shows "filters loads qs = Inr (map (\<lambda>c. JString [c]) t)"
  using assms
  by (simp add: filters_def extend_json_def get_key_values_def get_key_values_loop_skip)

text \<open>
  Claim C3.  A \<open>filter\<close> value that is valid JSON but not an array is meant to fail with
  \<open>InvalidFilters\<close>.  For a JSON object the source extends the result with the object's
  keys and raises nothing: \<open>filter={"a": 1}\<close> returns the one-element list holding the
  string \<open>a\<close>.
\<close>

theorem filters_accepts_json_object:
  "filters (\<lambda>s. if s = ''{\"a\": 1}'' then Some (JObject [(''a'', JInt 1)]) else None)
     [(''filter'', ''{\"a\": 1}'')]
   = Inr [JString ''a'']"
  by code_simp

subsection \<open>The sort checks\<close>






subsection \<open>The sort field name\<close>

text \<open>
  Claim C4.  Only one leading \<open>-\<close> of a sort token is meant to be stripped, so that a \<open>-\<close>
  inside the token belongs to the field name.  The source removes every \<open>-\<close> of the token:
  for \<open>sort=created-at\<close> over a schema that declares \<open>created-at\<close> it looks up
  \<open>createdat\<close> and fails with \<open>InvalidSort\<close>.
\<close>

theorem sorting_removes_inner_dash:
  "sorting ''.''
     \<lparr>schema_name = ''ArticleSchema'', declared_fields = [''id'', ''created-at''],
        get_relationships = [], get_model_field = (\<lambda>f. f)\<rparr>
     [(''sort'', ''created-at'')]
   = Inl (InvalidSort ''ArticleSchema has no attribute createdat'')"
  by code_simp

subsection \<open>The sparse fieldset checks\<close>

text \<open>
  The inner loop passes exactly when every requested name is declared, and otherwise fails
  on the first name that is not; the outer loop does the same over the requested types.
\<close>

lemma fields_check_ok:
  "set fs \<subseteq> set (declared_fields sch) \<Longrightarrow> fields_check sch fs = Inr ()"
  by (induction fs) auto

lemma fields_check_first:
  "set fpre \<subseteq> set (declared_fields sch) \<Longrightarrow> f \<notin> set (declared_fields sch) \<Longrightarrow>
   fields_check sch (fpre @ f # fpost)
   = Inl (InvalidField (schema_name sch @ '' has no attribute '' @ f))"
  by (induction fpre) auto

lemma fields_check_bad:
  "\<not> set fs \<subseteq> set (declared_fields sch) \<Longrightarrow>
   \<exists>f. f \<in> set fs \<and> f \<notin> set (declared_fields sch)
       \<and> fields_check sch fs = Inl (InvalidField (schema_name sch @ '' has no attribute '' @ f))"
  by (induction fs) auto

lemma fields_loop_ok:
  "\<forall>kv\<in>set r. (case reg (fst kv) of None \<Rightarrow> False
                 | Some sch \<Rightarrow> set (snd kv) \<subseteq> set (declared_fields sch)) \<Longrightarrow>
   fields_loop reg r = Inr ()"
  by (induction r) (auto simp: fields_check_ok split: option.splits)

lemma fields_loop_first:
  "\<forall>kv\<in>set pre. (case reg (fst kv) of None \<Rightarrow> False
                 | Some sch \<Rightarrow> set (snd kv) \<subseteq> set (declared_fields sch)) \<Longrightarrow>
   reg t = Some sch \<Longrightarrow> fields_check sch fs = Inl e \<Longrightarrow>
   fields_loop reg (pre @ (t, fs) # post) = Inl e"
  by (induction pre) (auto simp: fields_check_ok split: option.splits)

lemma fields_loop_bad:
  "\<forall>kv\<in>set r. reg (fst kv) \<noteq> None \<Longrightarrow>
   \<exists>kv\<in>set r. \<not> (case reg (fst kv) of None \<Rightarrow> False
                   | Some sch \<Rightarrow> set (snd kv) \<subseteq> set (declared_fields sch)) \<Longrightarrow>
   \<exists>t fs f sch. (t, fs) \<in> set r \<and> f \<in> set fs \<and> reg t = Some sch
      \<and> f \<notin> set (declared_fields sch)
      \<and> fields_loop reg r = Inl (InvalidField (schema_name sch @ '' has no attribute '' @ f))"
proof (induction r)
  case Nil
  then show ?case by simp
next
  case (Cons kv r)
  obtain t fs where kv: "kv = (t, fs)" by (cases kv)
  from Cons.prems(1) kv obtain sch where sch: "reg t = Some sch" by auto
  show ?case
  proof (cases "set fs \<subseteq> set (declared_fields sch)")
    case False
    from fields_check_bad [OF False] obtain f where
      "f \<in> set fs" "f \<notin> set (declared_fields sch)"
      "fields_check sch fs = Inl (InvalidField (schema_name sch @ '' has no attribute '' @ f))"
      by blast
    then show ?thesis using kv sch by (intro exI [of _ t] exI [of _ fs] exI [of _ f] exI [of _ sch]) simp
  next
    case True
    then have run: "fields_loop reg (kv # r) = fields_loop reg r"
      using kv sch by (simp add: fields_check_ok)
    have "\<exists>kv\<in>set r. \<not> (case reg (fst kv) of None \<Rightarrow> False
                   | Some sch \<Rightarrow> set (snd kv) \<subseteq> set (declared_fields sch))"
      using Cons.prems(2) True kv sch by auto
    with Cons.IH Cons.prems(1) obtain t' fs' f' sch' where
      "(t', fs') \<in> set r" "f' \<in> set fs'" "reg t' = Some sch'"
      "f' \<notin> set (declared_fields sch')"
      "fields_loop reg r = Inl (InvalidField (schema_name sch' @ '' has no attribute '' @ f'))"
      by auto
    then show ?thesis unfolding run
      by (intro exI [of _ t'] exI [of _ fs'] exI [of _ f'] exI [of _ sch']) simp
  qed
qed

text \<open>
  Claim C9.  Let \<open>result\<close> be the \<open>fields\<close> group with every scalar value made a one-element
  list, and let the registry resolve the requested types.  When every requested field of
  every type is declared on the type's schema, the accessor returns \<open>result\<close>.  The first
  requested field that is not declared on its schema makes the accessor fail with
  \<open>InvalidField\<close>, whose message names the schema and the field; so whenever some requested
  field is not declared, the accessor fails with \<open>InvalidField\<close> naming a requested pair.
\<close>

theorem fields_checks:
  fixes reg :: registry
  defines "ok \<equiv> \<lambda>kv. (case reg (fst kv) of None \<Rightarrow> False
                        | Some sch \<Rightarrow> set (snd kv) \<subseteq> set (declared_fields sch))"
  assumes "get_key_values ''fields'' qs = Inr g"
      and "result = map (\<lambda>kv. (fst kv, as_list (snd kv))) g"
  shows
    "((\<forall>kv\<in>set result. ok kv) \<longrightarrow> fields reg qs = Inr result)
     \<and> (result = pre @ (t, fpre @ f # fpost) # post \<and> (\<forall>kv\<in>set pre. ok kv)
          \<and> reg t = Some sch \<and> set fpre \<subseteq> set (declared_fields sch)
          \<and> f \<notin> set (declared_fields sch) \<longrightarrow>
        fields reg qs = Inl (InvalidField (schema_name sch @ '' has no attribute '' @ f)))
     \<and> ((\<forall>kv\<in>set result. reg (fst kv) \<noteq> None) \<and> (\<exists>kv\<in>set result. \<not> ok kv) \<longrightarrow>
        (\<exists>t' fs f' sch'. (t', fs) \<in> set result \<and> f' \<in> set fs \<and> reg t' = Some sch'
           \<and> f' \<notin> set (declared_fields sch')
           \<and> fields reg qs
             = Inl (InvalidField (schema_name sch' @ '' has no attribute '' @ f'))))"
proof -
  have run: "fields reg qs
     = (case fields_loop reg result of Inl e \<Rightarrow> Inl e | Inr u \<Rightarrow> Inr result)"
    unfolding assms(3) using assms(2) by (simp add: fields_def Let_def)
  have all_ok: "fields reg qs = Inr result" if "\<forall>kv\<in>set result. ok kv"
    using that fields_loop_ok [of result reg] by (simp add: run ok_def)
  have first: "fields reg qs
       = Inl (InvalidField (schema_name sch @ '' has no attribute '' @ f))"
    if "result = pre @ (t, fpre @ f # fpost) # post" "\<forall>kv\<in>set pre. ok kv"
       "reg t = Some sch" "set fpre \<subseteq> set (declared_fields sch)"
       "f \<notin> set (declared_fields sch)"
  proof -
    have "fields_loop reg (pre @ (t, fpre @ f # fpost) # post)
          = Inl (InvalidField (schema_name sch @ '' has no attribute '' @ f))"
      using that(2) that(3) fields_check_first [OF that(4) that(5)]
      unfolding ok_def by (rule fields_loop_first)
    then show ?thesis by (simp add: run that(1))
  qed
  have bad: "\<exists>t' fs f' sch'. (t', fs) \<in> set result \<and> f' \<in> set fs \<and> reg t' = Some sch'
           \<and> f' \<notin> set (declared_fields sch')
           \<and> fields reg qs
             = Inl (InvalidField (schema_name sch' @ '' has no attribute '' @ f'))"
    if "\<forall>kv\<in>set result. reg (fst kv) \<noteq> None" "\<exists>kv\<in>set result. \<not> ok kv"
  proof -
    from fields_loop_bad [OF that(1) that(2) [unfolded ok_def]]
    obtain t' fs f' sch' where
      "(t', fs) \<in> set result" "f' \<in> set fs" "reg t' = Some sch'"
      "f' \<notin> set (declared_fields sch')"
      "fields_loop reg result = Inl (InvalidField (schema_name sch' @ '' has no attribute '' @ f'))"
      by blast
    then show ?thesis
      by (intro exI [of _ t'] exI [of _ fs] exI [of _ f'] exI [of _ sch']) (simp add: run)
  qed
  show ?thesis using all_ok first bad by blast
qed

theorem fields_checks_witness:
  "fields (\<lambda>t. if t = ''user''
                then Some \<lparr>schema_name = ''UserSchema'',
                           declared_fields = [''id'', ''name'', ''email''],
                           get_relationships = [], get_model_field = (\<lambda>f. f)\<rparr>
                else None)
     [(''fields[user]'', ''name,email'')]
   = Inr [(''user'', [''name'', ''email''])]
   \<and> fields (\<lambda>t. if t = ''user''
                  then Some \<lparr>schema_name = ''UserSchema'',
                             declared_fields = [''id'', ''name'', ''email''],
                             get_relationships = [], get_model_field = (\<lambda>f. f)\<rparr>
                  else None)
       [(''fields[user]'', ''name'')]
     = Inr [(''user'', [''name''])]
   \<and> fields (\<lambda>t. if t = ''user''
                  then Some \<lparr>schema_name = ''UserSchema'',
                             declared_fields = [''id'', ''name'', ''email''],
                             get_relationships = [], get_model_field = (\<lambda>f. f)\<rparr>
                  else None)
       [(''fields[user]'', ''name,password'')]
     = Inl (InvalidField ''UserSchema has no attribute password'')
   \<and> (\<exists>msg. fields (\<lambda>t. if t = ''user''
                  then Some \<lparr>schema_name = ''UserSchema'',
                             declared_fields = [''id'', ''name'', ''email''],
                             get_relationships = [], get_model_field = (\<lambda>f. f)\<rparr>
                  else None)
       [(''fields[user]'', ''password'')]
     = Inl (InvalidField msg))"
proof -
  let ?sch = "\<lparr>schema_name = ''UserSchema'', declared_fields = [''id'', ''name'', ''email''],
               get_relationships = [], get_model_field = (\<lambda>f. f)\<rparr>"
  let ?reg = "\<lambda>t. if t = ''user'' then Some ?sch else None"
  have g1: "get_key_values ''fields'' [(''fields[user]'', ''name,email'')]
            = Inr [(''user'', Multi [''name'', ''email''])]"
    by code_simp
  have g2: "get_key_values ''fields'' [(''fields[user]'', ''name'')]
            = Inr [(''user'', Scalar ''name'')]"
    by code_simp
  have g3: "get_key_values ''fields'' [(''fields[user]'', ''name,password'')]
            = Inr [(''user'', Multi [''name'', ''password''])]"
    by code_simp
  have g4: "get_key_values ''fields'' [(''fields[user]'', ''password'')]
            = Inr [(''user'', Scalar ''password'')]"
    by code_simp
  have a: "fields ?reg [(''fields[user]'', ''name,email'')]
           = Inr [(''user'', [''name'', ''email''])]"
    using fields_checks [OF g1 refl, where reg = ?reg]
    by (simp add: as_list_def)
  have b: "fields ?reg [(''fields[user]'', ''name'')] = Inr [(''user'', [''name''])]"
    using fields_checks [OF g2 refl, where reg = ?reg]
    by (simp add: as_list_def)
  have c: "fields ?reg [(''fields[user]'', ''name,password'')]
           = Inl (InvalidField ''UserSchema has no attribute password'')"
    using fields_checks [OF g3 refl, where reg = ?reg and pre = "[]" and t = "''user''"
        and fpre = "[''name'']" and f = "''password''" and fpost = "[]" and post = "[]"
        and sch = ?sch]
    by (simp add: as_list_def)
  have d: "\<exists>msg. fields ?reg [(''fields[user]'', ''password'')] = Inl (InvalidField msg)"
    using fields_checks [OF g4 refl, where reg = ?reg]
    by (auto simp: as_list_def)
  show ?thesis using a b c d by simp
qed

subsection \<open>Coercion of a comma-separated page value\<close>

text \<open>
  The first value of the \<open>page\<close> group that \<open>int\<close> does not accept decides the error: a
  scalar string fails with \<open>BadRequest\<close> naming \<open>page[key]\<close>, a list with \<open>TypeError\<close>.
\<close>

lemma pagination_loop_first_error:
  assumes "\<forall>kv\<in>set pre. (fst kv = ''number'' \<or> fst kv = ''size'')
              \<and> (\<exists>n. int_of_qvalue (fst kv) (snd kv) = Inr n)"
      and "key = ''number'' \<or> key = ''size''"
      and "int_of_qvalue key v = Inl e"
  shows "pagination_loop (pre @ (key, v) # post) = Inl e"
  using assms by (induction pre) auto

lemma pagination_scalar_not_integer:
  assumes "get_key_values ''page'' qs = Inr (pre @ (key, Scalar s) # post)"
      and "\<forall>kv\<in>set pre. (fst kv = ''number'' \<or> fst kv = ''size'')
              \<and> (\<exists>n. int_of_qvalue (fst kv) (snd kv) = Inr n)"
      and "key = ''number'' \<or> key = ''size''"
      and "py_int s = None"
  shows "pagination cfg qs = Inl (BadRequest ''Parse error'' (''page['' @ key @ '']''))"
proof -
  have "int_of_qvalue key (Scalar s) = Inl (BadRequest ''Parse error'' (''page['' @ key @ '']''))"
    using assms(4) by (simp add: int_of_qvalue_def)
  with assms(2,3) have "pagination_loop (pre @ (key, Scalar s) # post)
        = Inl (BadRequest ''Parse error'' (''page['' @ key @ '']''))"
    by (rule pagination_loop_first_error)
  with assms(1) show ?thesis by (simp add: pagination_def)
qed

lemma pagination_list_value:
  assumes "get_key_values ''page'' qs = Inr (pre @ (key, Multi xs) # post)"
      and "\<forall>kv\<in>set pre. (fst kv = ''number'' \<or> fst kv = ''size'')
              \<and> (\<exists>n. int_of_qvalue (fst kv) (snd kv) = Inr n)"
      and "key = ''number'' \<or> key = ''size''"
  shows "pagination cfg qs = Inl TypeError"
proof -
  have "int_of_qvalue key (Multi xs) = Inl TypeError"
    by (simp add: int_of_qvalue_def)
  with assms(2,3) have "pagination_loop (pre @ (key, Multi xs) # post) = Inl TypeError"
    by (rule pagination_loop_first_error)
  with assms(1) show ?thesis by (simp add: pagination_def)
qed

text \<open>
  Claim C5.  A \<open>page[size]\<close> value that cannot be coerced to an integer is meant to fail
  with \<open>BadRequest\<close> naming \<open>page[size]\<close>.  For \<open>page[size]=1,2\<close> the extracted value is a
  list, \<open>int\<close> raises \<open>TypeError\<close>, and the handler for \<open>ValueError\<close> lets it through,
  whatever the configuration.
\<close>

theorem pagination_list_value_type_error:
  "pagination cfg [(''page[size]'', ''1,2'')] = Inl TypeError"
  by (simp add: pagination_def get_key_values_def item_key_def item_value_def py_slice_def
      int_of_qvalue_def)

subsection \<open>The pagination policy checks\<close>

text \<open>\<^verbatim>\<open>setdefault\<close> leaves a present key alone and gives an absent one the default.\<close>

lemma map_of_setdefault:
  "map_of (setdefault d k v) k = Some (case map_of d k of None \<Rightarrow> v | Some w \<Rightarrow> w)"
proof (cases "k \<in> fst ` set d")
  case True
  then obtain w where "map_of d k = Some w"
    by (cases "map_of d k") (simp_all add: map_of_eq_None_iff)
  with True show ?thesis by (simp add: setdefault_def)
next
  case False
  then have "map_of d k = None" by (simp add: map_of_eq_None_iff)
  with False show ?thesis by (simp add: setdefault_def map_add_def)
qed

text \<open>The two checks, read off the size the dictionary holds after \<^verbatim>\<open>setdefault\<close>.\<close>

lemma pagination_policy_cases:
  assumes "map_of r ''size'' = Some sz"
  shows "pagination_policy cfg r =
     (if ALLOW_DISABLE_PAGINATION cfg = Some False \<and> sz = 0
      then Inl (BadRequest ''You are not allowed to disable pagination'' ''page[size]'')
      else case MAX_PAGE_SIZE cfg of
             None \<Rightarrow> Inr r
           | Some m \<Rightarrow> if m < sz
                       then Inl (BadRequest (''Maximum page size is '' @ py_str m) ''page[size]'')
                       else Inr r)"
  using assms by (simp add: pagination_policy_def split: option.splits)

text \<open>
  Claim C7.  Once the \<open>page\<close> group is extracted and coerced, the size is resolved (the
  value of \<open>page[size]\<close>, or \<open>PAGE_SIZE\<close> when it is absent) and two checks follow in this
  order.  When \<open>ALLOW_DISABLE_PAGINATION\<close> is false and the resolved size is 0, the accessor
  fails with \<open>BadRequest\<close>.  When \<open>MAX_PAGE_SIZE\<close> is set and the resolved size exceeds it,
  the accessor fails with \<open>BadRequest\<close> on \<open>page[size]\<close>, and its message names the maximum
  whenever the first check has not already failed.  When neither check applies, the
  resolved dictionary is returned.
\<close>

theorem pagination_policy_checks:
  assumes "get_key_values ''page'' qs = Inr g"
      and "pagination_loop g = Inr result"
      and "sz = (case map_of result ''size'' of None \<Rightarrow> page_size cfg | Some n \<Rightarrow> n)"
  shows
    "(ALLOW_DISABLE_PAGINATION cfg = Some False \<and> sz = 0 \<longrightarrow>
        pagination cfg qs
        = Inl (BadRequest ''You are not allowed to disable pagination'' ''page[size]''))
     \<and> (MAX_PAGE_SIZE cfg = Some m \<and> m < sz \<longrightarrow>
        (\<exists>msg. pagination cfg qs = Inl (BadRequest msg ''page[size]'')))
     \<and> (MAX_PAGE_SIZE cfg = Some m \<and> m < sz
          \<and> \<not> (ALLOW_DISABLE_PAGINATION cfg = Some False \<and> sz = 0) \<longrightarrow>
        pagination cfg qs
        = Inl (BadRequest (''Maximum page size is '' @ py_str m) ''page[size]''))
     \<and> (\<not> (ALLOW_DISABLE_PAGINATION cfg = Some False \<and> sz = 0)
          \<and> (\<forall>n. MAX_PAGE_SIZE cfg = Some n \<longrightarrow> sz \<le> n) \<longrightarrow>
        pagination cfg qs = Inr (setdefault result ''size'' (page_size cfg)))"
proof -
  let ?r = "setdefault result ''size'' (page_size cfg)"
  have sz: "map_of ?r ''size'' = Some sz"
    using assms(3) by (simp add: map_of_setdefault)
  have run: "pagination cfg qs = pagination_policy cfg ?r"
    using assms(1,2) by (simp add: pagination_def)
  show ?thesis
    unfolding run pagination_policy_cases [OF sz]
    by (auto split: option.splits)
qed

theorem pagination_policy_checks_witness:
  "pagination \<lparr>PAGE_SIZE = None, ALLOW_DISABLE_PAGINATION = Some False,
                MAX_PAGE_SIZE = Some 100, MAX_INCLUDE_DEPTH = None\<rparr>
     [(''page[size]'', ''0'')]
   = Inl (BadRequest ''You are not allowed to disable pagination'' ''page[size]'')
   \<and> pagination \<lparr>PAGE_SIZE = None, ALLOW_DISABLE_PAGINATION = Some False,
                  MAX_PAGE_SIZE = Some 100, MAX_INCLUDE_DEPTH = None\<rparr>
       [(''page[size]'', ''500'')]
     = Inl (BadRequest ''Maximum page size is 100'' ''page[size]'')
   \<and> pagination \<lparr>PAGE_SIZE = None, ALLOW_DISABLE_PAGINATION = Some False,
                  MAX_PAGE_SIZE = Some 100, MAX_INCLUDE_DEPTH = None\<rparr>
       [(''page[number]'', ''3'')]
     = Inr [(''number'', 3), (''size'', 30)]"
proof -
  let ?cfg = "\<lparr>PAGE_SIZE = None, ALLOW_DISABLE_PAGINATION = Some False,
                MAX_PAGE_SIZE = Some 100, MAX_INCLUDE_DEPTH = None\<rparr>"
  have g0: "get_key_values ''page'' [(''page[size]'', ''0'')] = Inr [(''size'', Scalar ''0'')]"
    by code_simp
  have l0: "pagination_loop [(''size'', Scalar ''0'')] = Inr [(''size'', 0)]"
    by code_simp
  have s0: "(0::int) = (case map_of [(''size'', 0::int)] ''size'' of
                          None \<Rightarrow> page_size ?cfg | Some n \<Rightarrow> n)"
    by simp
  have g1: "get_key_values ''page'' [(''page[size]'', ''500'')] = Inr [(''size'', Scalar ''500'')]"
    by code_simp
  have l1: "pagination_loop [(''size'', Scalar ''500'')] = Inr [(''size'', 500)]"
    by code_simp
  have s1: "(500::int) = (case map_of [(''size'', 500::int)] ''size'' of
                          None \<Rightarrow> page_size ?cfg | Some n \<Rightarrow> n)"
    by simp
  have g2: "get_key_values ''page'' [(''page[number]'', ''3'')] = Inr [(''number'', Scalar ''3'')]"
    by code_simp
  have l2: "pagination_loop [(''number'', Scalar ''3'')] = Inr [(''number'', 3)]"
    by code_simp
  have s2: "(30::int) = (case map_of [(''number'', 3::int)] ''size'' of
                          None \<Rightarrow> page_size ?cfg | Some n \<Rightarrow> n)"
    by (simp add: page_size_def)
  have m: "py_str 100 = ''100''"
    by code_simp
  have d: "setdefault [(''number'', 3::int)] ''size'' (page_size ?cfg) = [(''number'', 3), (''size'', 30)]"
    by (simp add: setdefault_def page_size_def)
  show ?thesis
    using pagination_policy_checks [OF g0 l0 s0, of 100]
      pagination_policy_checks [OF g1 l1 s1, of 100]
      pagination_policy_checks [OF g2 l2 s2, of 100]
    by (simp add: m d)
qed

subsection \<open>Well-formed page parameters\<close>

text \<open>A string that \<^verbatim>\<open>int\<close> accepts holds no comma, so its group value is a scalar.\<close>

lemma digit_of_comma: "digit_of c = Some d \<Longrightarrow> c \<noteq> CHR '',''"
  by (auto simp: digit_of_def)

lemma parse_digits_no_comma: "parse_digits acc s = Some n \<Longrightarrow> CHR '','' \<notin> set s"
  by (induction acc s rule: parse_digits.induct)
    (auto split: if_splits list.splits option.splits dest: digit_of_comma)

lemma parse_unsigned_no_comma: "parse_unsigned s = Some n \<Longrightarrow> CHR '','' \<notin> set s"
  by (auto simp: parse_unsigned_def split: list.splits option.splits
      dest: digit_of_comma parse_digits_no_comma)

lemma in_set_dropWhile: "x \<in> set xs \<Longrightarrow> \<not> P x \<Longrightarrow> x \<in> set (dropWhile P xs)"
  by (induction xs) auto

lemma comma_in_strip:
  assumes "CHR '','' \<in> set s"
  shows "CHR '','' \<in> set (py_strip s)"
proof -
  have ns: "\<not> is_space CHR '',''"
    by (simp add: is_space_def)
  from assms ns have "CHR '','' \<in> set (rev (dropWhile is_space s))"
    by (simp add: in_set_dropWhile)
  then have "CHR '','' \<in> set (dropWhile is_space (rev (dropWhile is_space s)))"
    using ns by (rule in_set_dropWhile)
  then show ?thesis by (simp add: py_strip_def)
qed

lemma py_int_no_comma:
  assumes "py_int s = Some n"
  shows "CHR '','' \<notin> set s"
proof
  assume "CHR '','' \<in> set s"
  then have c: "CHR '','' \<in> set (py_strip s)" by (rule comma_in_strip)
  from assms obtain m where "parse_unsigned (py_strip s) = Some m
      \<or> (\<exists>cs. py_strip s = CHR ''-'' # cs \<and> parse_unsigned cs = Some m)
      \<or> (\<exists>cs. py_strip s = CHR ''+'' # cs \<and> parse_unsigned cs = Some m)"
    by (auto simp: py_int_def split: list.splits if_splits)
  then show False using c by (auto dest: parse_unsigned_no_comma)
qed

text \<open>
  The loop skips the raw keys that do not start with the prefix.  When the only keys that
  start with \<open>page\<close> are \<open>page[number]\<close> and \<open>page[size]\<close>, the entries the loop handles are
  at most these two, in either order.
\<close>

lemma get_key_values_loop_filter:
  "get_key_values_loop name (filter (\<lambda>kv. py_startswith (fst kv) name) qs) acc
   = get_key_values_loop name qs acc"
proof (induction qs arbitrary: acc)
  case Nil
  then show ?case by simp
next
  case (Cons kv qs)
  obtain k w where kv: "kv = (k, w)" by (cases kv)
  show ?case using Cons.IH kv by (cases "item_key k") simp_all
qed

lemma pagination_filter:
  "pagination cfg (filter (\<lambda>kv. py_startswith (fst kv) ''page'') qs) = pagination cfg qs"
  by (simp add: pagination_def get_key_values_def get_key_values_loop_filter)

lemma map_of_filter_keys:
  "map_of (filter (\<lambda>kv. P (fst kv)) qs) k = (if P k then map_of qs k else None)"
  by (induction qs) auto

lemma two_key_shapes:
  fixes F :: "('k \<times> 'v) list"
  assumes "distinct (map fst F)" and "fst ` set F \<subseteq> {a, b}"
  shows "F = [] \<or> (\<exists>x. F = [(a, x)]) \<or> (\<exists>y. F = [(b, y)])
         \<or> (\<exists>x y. F = [(a, x), (b, y)]) \<or> (\<exists>x y. F = [(b, y), (a, x)])"
proof (cases F)
  case Nil
  then show ?thesis by simp
next
  case (Cons p F1)
  note F = Cons
  show ?thesis
  proof (cases F1)
    case Nil
    with F assms show ?thesis by (cases p) auto
  next
    case (Cons q F2)
    note F1 = Cons
    show ?thesis
    proof (cases F2)
      case Nil
      with F F1 assms show ?thesis by (cases p; cases q) auto
    next
      case (Cons r F3)
      with F F1 assms have False by (cases p; cases q; cases r) auto
      then show ?thesis ..
    qed
  qed
qed

text \<open>The accessor on each of these shapes, up to the policy checks.\<close>

lemma item_key_page_number: "item_key ''page[number]'' = Some ''number''"
  by code_simp

lemma item_key_page_size: "item_key ''page[size]'' = Some ''size''"
  by code_simp

lemma pagination_none: "pagination cfg [] = pagination_policy cfg [(''size'', page_size cfg)]"
  by (simp add: pagination_def get_key_values_def setdefault_def)

lemma pagination_number:
  assumes "py_int vn = Some N"
  shows "pagination cfg [(''page[number]'', vn)]
         = pagination_policy cfg [(''number'', N), (''size'', page_size cfg)]"
  using assms py_int_no_comma [OF assms]
  by (simp add: pagination_def get_key_values_def item_key_page_number item_value_def
      int_of_qvalue_def setdefault_def)

lemma pagination_size:
  assumes "py_int vs = Some S"
  shows "pagination cfg [(''page[size]'', vs)] = pagination_policy cfg [(''size'', S)]"
  using assms py_int_no_comma [OF assms]
  by (simp add: pagination_def get_key_values_def item_key_page_size item_value_def
      int_of_qvalue_def setdefault_def)

lemma pagination_number_size:
  assumes "py_int vn = Some N" and "py_int vs = Some S"
  shows "pagination cfg [(''page[number]'', vn), (''page[size]'', vs)]
         = pagination_policy cfg [(''number'', N), (''size'', S)]"
  using assms py_int_no_comma [OF assms(1)] py_int_no_comma [OF assms(2)]
  by (simp add: pagination_def get_key_values_def item_key_page_number item_key_page_size
      item_value_def int_of_qvalue_def setdefault_def)

lemma pagination_size_number:
  assumes "py_int vn = Some N" and "py_int vs = Some S"
  shows "pagination cfg [(''page[size]'', vs), (''page[number]'', vn)]
         = pagination_policy cfg [(''size'', S), (''number'', N)]"
  using assms py_int_no_comma [OF assms(1)] py_int_no_comma [OF assms(2)]
  by (simp add: pagination_def get_key_values_def item_key_page_number item_key_page_size
      item_value_def int_of_qvalue_def setdefault_def)

lemma pagination_policy_allowed:
  assumes "map_of r ''size'' = Some sz"
      and "\<not> (ALLOW_DISABLE_PAGINATION cfg = Some False \<and> sz = 0)"
      and "\<forall>m. MAX_PAGE_SIZE cfg = Some m \<longrightarrow> sz \<le> m"
  shows "pagination_policy cfg r = Inr r"
  using assms(2,3) unfolding pagination_policy_cases [OF assms(1)]
  by (auto split: option.splits)

text \<open>
  The default size is checked like a requested size: with \<open>MAX_PAGE_SIZE = 10\<close> and
  \<open>PAGE_SIZE\<close> unset, a querystring without \<open>page[size]\<close> fails on the default 30.  A further
  key that starts with \<open>page\<close>, here \<open>pages[foo]\<close>, is read as a page parameter and makes a
  querystring with well-formed \<open>page[number]\<close> and \<open>page[size]\<close> fail.
\<close>

theorem pagination_default_rejected:
  "pagination \<lparr>PAGE_SIZE = None, ALLOW_DISABLE_PAGINATION = None, MAX_PAGE_SIZE = Some 10,
                MAX_INCLUDE_DEPTH = None\<rparr> []
   = Inl (BadRequest ''Maximum page size is 10'' ''page[size]'')
   \<and> pagination \<lparr>PAGE_SIZE = None, ALLOW_DISABLE_PAGINATION = None, MAX_PAGE_SIZE = None,
                  MAX_INCLUDE_DEPTH = None\<rparr>
       [(''page[number]'', ''1''), (''page[size]'', ''2''), (''pages[foo]'', ''3'')]
     = Inl (BadRequest ''foo is not a valid parameter of pagination'' ''page'')"
  by code_simp

text \<open>
  Claim C6, amended.  Let the raw querystring be a dictionary whose only keys starting with
  \<open>page\<close> are \<open>page[number]\<close> and \<open>page[size]\<close>.  When both are present with values that
  \<open>int\<close> reads as \<open>N\<close> and \<open>S\<close>, and no policy forbids \<open>S\<close>, the accessor returns exactly
  the dictionary \<open>{number: N, size: S}\<close>.  When \<open>page[size]\<close> is absent and no policy forbids
  the configured default size (\<open>PAGE_SIZE\<close>, 30 when unset), the accessor returns the default
  size with no error, together with the number when \<open>page[number]\<close> is present.
\<close>

theorem pagination_well_formed:
  assumes "distinct (map fst qs)"
      and "\<forall>k\<in>fst ` set qs. py_startswith k ''page''
              \<longrightarrow> k = ''page[number]'' \<or> k = ''page[size]''"
  shows
    "(map_of qs ''page[number]'' = Some vn \<and> py_int vn = Some N
        \<and> map_of qs ''page[size]'' = Some vs \<and> py_int vs = Some S
        \<and> \<not> (ALLOW_DISABLE_PAGINATION cfg = Some False \<and> S = 0)
        \<and> (\<forall>m. MAX_PAGE_SIZE cfg = Some m \<longrightarrow> S \<le> m) \<longrightarrow>
        (\<exists>r. pagination cfg qs = Inr r \<and> distinct (map fst r)
            \<and> map_of r = [''number'' \<mapsto> N, ''size'' \<mapsto> S]))
     \<and> (map_of qs ''page[size]'' = None
          \<and> \<not> (ALLOW_DISABLE_PAGINATION cfg = Some False \<and> page_size cfg = 0)
          \<and> (\<forall>m. MAX_PAGE_SIZE cfg = Some m \<longrightarrow> page_size cfg \<le> m) \<longrightarrow>
        (map_of qs ''page[number]'' = None \<longrightarrow>
           pagination cfg qs = Inr [(''size'', page_size cfg)])
        \<and> (map_of qs ''page[number]'' = Some vn \<and> py_int vn = Some N \<longrightarrow>
           pagination cfg qs = Inr [(''number'', N), (''size'', page_size cfg)]))"
proof -
  let ?F = "filter (\<lambda>kv. py_startswith (fst kv) ''page'') qs"
  have run: "pagination cfg qs = pagination cfg ?F"
    by (simp add: pagination_filter)
  have dF: "distinct (map fst ?F)"
    using assms(1) by (rule distinct_map_filter)
  have kF: "fst ` set ?F \<subseteq> {''page[number]'', ''page[size]''}"
    using assms(2) by auto
  have mn: "map_of ?F ''page[number]'' = map_of qs ''page[number]''"
    by (simp add: map_of_filter_keys [of "\<lambda>k. py_startswith k ''page''"])
  have ms: "map_of ?F ''page[size]'' = map_of qs ''page[size]''"
    by (simp add: map_of_filter_keys [of "\<lambda>k. py_startswith k ''page''"])
  note shapes = two_key_shapes [OF dF kF]
  have both: "\<exists>r. pagination cfg qs = Inr r \<and> distinct (map fst r)
            \<and> map_of r = [''number'' \<mapsto> N, ''size'' \<mapsto> S]"
    if "map_of qs ''page[number]'' = Some vn" "py_int vn = Some N"
       "map_of qs ''page[size]'' = Some vs" "py_int vs = Some S"
       "\<not> (ALLOW_DISABLE_PAGINATION cfg = Some False \<and> S = 0)"
       "\<forall>m. MAX_PAGE_SIZE cfg = Some m \<longrightarrow> S \<le> m"
  proof -
    from shapes mn ms that(1,3)
    consider "?F = [(''page[number]'', vn), (''page[size]'', vs)]"
      | "?F = [(''page[size]'', vs), (''page[number]'', vn)]"
      by (elim disjE exE) (simp_all split: if_splits)
    then show ?thesis
    proof cases
      case 1
      have "pagination cfg qs = Inr [(''number'', N), (''size'', S)]"
        unfolding run 1 pagination_number_size [OF that(2,4)]
        by (rule pagination_policy_allowed [OF _ that(5,6)]) simp
      then show ?thesis by (auto simp: fun_eq_iff)
    next
      case 2
      have "pagination cfg qs = Inr [(''size'', S), (''number'', N)]"
        unfolding run 2 pagination_size_number [OF that(2,4)]
        by (rule pagination_policy_allowed [OF _ that(5,6)]) simp
      then show ?thesis by (auto simp: fun_eq_iff)
    qed
  qed
  have no_size: "(map_of qs ''page[number]'' = None \<longrightarrow>
           pagination cfg qs = Inr [(''size'', page_size cfg)])
        \<and> (map_of qs ''page[number]'' = Some vn \<and> py_int vn = Some N \<longrightarrow>
           pagination cfg qs = Inr [(''number'', N), (''size'', page_size cfg)])"
    if "map_of qs ''page[size]'' = None"
       "\<not> (ALLOW_DISABLE_PAGINATION cfg = Some False \<and> page_size cfg = 0)"
       "\<forall>m. MAX_PAGE_SIZE cfg = Some m \<longrightarrow> page_size cfg \<le> m"
  proof (intro conjI impI)
    assume "map_of qs ''page[number]'' = None"
    with shapes mn ms that(1) have "?F = []"
      by (elim disjE exE) (simp_all split: if_splits)
    show "pagination cfg qs = Inr [(''size'', page_size cfg)]"
      unfolding run \<open>?F = []\<close> pagination_none
      by (rule pagination_policy_allowed [OF _ that(2,3)]) simp
  next
    assume a: "map_of qs ''page[number]'' = Some vn \<and> py_int vn = Some N"
    with shapes mn ms that(1) have F: "?F = [(''page[number]'', vn)]"
      by (elim disjE exE) (simp_all split: if_splits)
    from a have N: "py_int vn = Some N" ..
    show "pagination cfg qs = Inr [(''number'', N), (''size'', page_size cfg)]"
      unfolding run F pagination_number [OF N]
      by (rule pagination_policy_allowed [OF _ that(2,3)]) simp
  qed
  show ?thesis using both no_size by blast
qed

theorem pagination_well_formed_witness:
  "(\<exists>r. pagination \<lparr>PAGE_SIZE = None, ALLOW_DISABLE_PAGINATION = Some False,
                      MAX_PAGE_SIZE = Some 100, MAX_INCLUDE_DEPTH = None\<rparr>
          [(''page[number]'', ''25''), (''sort'', ''name''), (''page[size]'', ''10'')] = Inr r
        \<and> distinct (map fst r) \<and> map_of r = [''number'' \<mapsto> 25, ''size'' \<mapsto> 10])
   \<and> pagination \<lparr>PAGE_SIZE = None, ALLOW_DISABLE_PAGINATION = Some False,
                  MAX_PAGE_SIZE = Some 100, MAX_INCLUDE_DEPTH = None\<rparr>
       [(''sort'', ''name'')]
     = Inr [(''size'', 30)]
   \<and> pagination \<lparr>PAGE_SIZE = None, ALLOW_DISABLE_PAGINATION = Some False,
                  MAX_PAGE_SIZE = Some 100, MAX_INCLUDE_DEPTH = None\<rparr>
       [(''page[number]'', ''3'')]
     = Inr [(''number'', 3), (''size'', 30)]"
proof -
  let ?cfg = "\<lparr>PAGE_SIZE = None, ALLOW_DISABLE_PAGINATION = Some False,
               MAX_PAGE_SIZE = Some 100, MAX_INCLUDE_DEPTH = None\<rparr>"
  let ?qs = "[(''page[number]'', ''25''), (''sort'', ''name''), (''page[size]'', ''10'')]"
  have i25: "py_int ''25'' = Some 25" by code_simp
  have i10: "py_int ''10'' = Some 10" by code_simp
  have i3: "py_int ''3'' = Some 3" by code_simp
  have d1: "distinct (map fst ?qs)" by simp
  have k1: "\<forall>k\<in>fst ` set ?qs. py_startswith k ''page''
              \<longrightarrow> k = ''page[number]'' \<or> k = ''page[size]''"
    by simp
  have d2: "distinct (map fst [(''sort'', ''name'')])" by simp
  have k2: "\<forall>k\<in>fst ` set [(''sort'', ''name'')]. py_startswith k ''page''
              \<longrightarrow> k = ''page[number]'' \<or> k = ''page[size]''"
    by simp
  have d3: "distinct (map fst [(''page[number]'', ''3'')])" by simp
  have k3: "\<forall>k\<in>fst ` set [(''page[number]'', ''3'')]. py_startswith k ''page''
              \<longrightarrow> k = ''page[number]'' \<or> k = ''page[size]''"
    by simp
  have a: "\<exists>r. pagination ?cfg ?qs = Inr r \<and> distinct (map fst r)
             \<and> map_of r = [''number'' \<mapsto> 25, ''size'' \<mapsto> 10]"
    using pagination_well_formed [OF d1 k1, where cfg = ?cfg and vn = "''25''" and N = 25
        and vs = "''10''" and S = 10] i25 i10
    by simp
  have b: "pagination ?cfg [(''sort'', ''name'')] = Inr [(''size'', 30)]"
    using pagination_well_formed [OF d2 k2, where cfg = ?cfg]
    by (simp add: page_size_def)
  have c: "pagination ?cfg [(''page[number]'', ''3'')] = Inr [(''number'', 3), (''size'', 30)]"
    using pagination_well_formed [OF d3 k3, where cfg = ?cfg and vn = "''3''" and N = 3] i3
    by (simp add: page_size_def)
  show ?thesis using a b c by simp
qed

end
